theory Spec2Isabelle
  imports Main
begin

section \<open>The future collection of flask-executor\<close>

text \<open>
  The source is \<^verbatim>\<open>src/flask_executor/futures.py\<close>: the class \<^verbatim>\<open>FutureCollection\<close>,
  a bounded, insertion-ordered dictionary from caller-chosen keys to
  \<^verbatim>\<open>concurrent.futures.Future\<close> objects. The specification calls it the handle
  registry, its bound \<^verbatim>\<open>maxSize\<close>, and the proxy that \<^verbatim>\<open>__getattr__\<close> returns
  \<^verbatim>\<open>invoke\<close>.

  Python's \<^verbatim>\<open>None\<close> is \<open>None\<close> of an option type throughout: \<^verbatim>\<open>pop\<close> returns
  \<open>'h option\<close>, and a value produced by a future is an \<open>'r option\<close>, since a future's
  method may itself return \<^verbatim>\<open>None\<close>. Keys \<open>'k\<close> are hashable values with equality,
  futures \<open>'h\<close> are the objects of the execution engine, compared as Python's
  \<^verbatim>\<open>in\<close> compares them (\<^verbatim>\<open>Future\<close> defines no \<^verbatim>\<open>__eq__\<close>, so by identity).
\<close>

subsection \<open>Exceptions\<close>

text \<open>
  \<open>ValueError\<close> is raised by \<^verbatim>\<open>add\<close> for a key that exists (the specification's
  duplicate-key error), \<open>AttributeError\<close> by \<^verbatim>\<open>getattr\<close> for a name the future
  does not have (the specification's unsupported-operation error), \<open>KeyError\<close> by
  \<^verbatim>\<open>OrderedDict.popitem\<close> on an empty dictionary and by a subscript with a missing
  key. \<open>HandleError\<close> stands for any other exception a method of a future raises,
  named by its class.
\<close>

datatype error = ValueError | KeyError | AttributeError | HandleError string

subsection \<open>The ordered dictionary\<close>

text \<open>
  \<^verbatim>\<open>collections.OrderedDict\<close> is an association list in insertion order, oldest
  entry first. The dictionary keeps its keys distinct; \<open>od_invariant\<close> says so.
\<close>

type_synonym ('k, 'h) ordered_dict = "('k \<times> 'h) list"

definition od_invariant :: "('k, 'h) ordered_dict \<Rightarrow> bool" where
  "od_invariant d \<longleftrightarrow> distinct (map fst d)"

definition od_keys :: "('k, 'h) ordered_dict \<Rightarrow> 'k list" where
  "od_keys d = map fst d"

definition od_values :: "('k, 'h) ordered_dict \<Rightarrow> 'h list" where
  "od_values d = map snd d"

text \<open>\<^verbatim>\<open>d[k] = v\<close>: a new key goes to the end, an existing key keeps its place.\<close>

definition od_setitem :: "('k, 'h) ordered_dict \<Rightarrow> 'k \<Rightarrow> 'h \<Rightarrow> ('k, 'h) ordered_dict" where
  "od_setitem d k v =
     (if k \<in> set (od_keys d)
      then map (\<lambda>kv. if fst kv = k then (k, v) else kv) d
      else d @ [(k, v)])"

text \<open>\<^verbatim>\<open>d.pop(k, None)\<close>: the value and the dictionary without the key.\<close>

definition od_pop :: "('k, 'h) ordered_dict \<Rightarrow> 'k \<Rightarrow> 'h option \<times> ('k, 'h) ordered_dict" where
  "od_pop d k =
     (case map_of d k of
        None \<Rightarrow> (None, d)
      | Some v \<Rightarrow> (Some v, filter (\<lambda>kv. fst kv \<noteq> k) d))"

subsection \<open>The collection\<close>

text \<open>
  \<^verbatim>\<open>
  def __init__(self, max_length=50):
      self.max_length = max_length
      self._futures = OrderedDict()
  \<close>
  \<open>max_length\<close> is \<^verbatim>\<open>None\<close> or an integer; Python accepts a negative one.
\<close>

record ('k, 'h) future_collection =
  max_length :: "int option"
  futures :: "('k, 'h) ordered_dict"

definition init :: "int option \<Rightarrow> ('k, 'h) future_collection" where
  "init m = \<lparr>max_length = m, futures = []\<rparr>"

definition init_default :: "('k, 'h) future_collection" where
  "init_default = init (Some 50)"

text \<open>\<^verbatim>\<open>__contains__\<close>: \<^verbatim>\<open>future in self._futures.values()\<close>.\<close>

definition contains :: "('k, 'h) future_collection \<Rightarrow> 'h \<Rightarrow> bool" where
  "contains fc future \<longleftrightarrow> future \<in> set (od_values (futures fc))"

text \<open>\<^verbatim>\<open>__len__\<close>: \<^verbatim>\<open>len(self._futures)\<close>.\<close>

definition len :: "('k, 'h) future_collection \<Rightarrow> nat" where
  "len fc = length (futures fc)"

subsection \<open>The attribute proxy\<close>

text \<open>
  \<^verbatim>\<open>
  def __getattr__(self, attr):
      def _future_attr(future_key, *args, **kwargs):
          if future_key not in self._futures:
              return None
          future_attr = getattr(self._futures[future_key], attr)
          if callable(future_attr):
              return future_attr(*args, **kwargs)
          return future_attr
      return _future_attr
  \<close>
  The class \<^verbatim>\<open>Future\<close> is not part of the source, so what an attribute name resolves
  to on a future is a parameter \<open>getattr\<close>: \<open>None\<close> where Python raises
  \<^verbatim>\<open>AttributeError\<close>, a callable (applied to the arguments \<open>'a\<close>, it returns a value
  or raises) or a plain value otherwise. \<open>future_attr\<close> is the closure
  \<^verbatim>\<open>_future_attr\<close> for the name \<open>attr\<close>.
\<close>

datatype ('a, 'r) attribute =
    Callable "'a \<Rightarrow> error + 'r option"
  | Plain "'r option"

definition future_attr ::
  "('h \<Rightarrow> string \<Rightarrow> ('a, 'r) attribute option) \<Rightarrow> ('k, 'h) future_collection \<Rightarrow>
   string \<Rightarrow> 'k \<Rightarrow> 'a \<Rightarrow> error + 'r option" where
  "future_attr getattr fc attr future_key args =
     (if future_key \<notin> set (od_keys (futures fc)) then Inr None
      else (case map_of (futures fc) future_key of
              None \<Rightarrow> Inl KeyError
            | Some future \<Rightarrow>
                (case getattr future attr of
                   None \<Rightarrow> Inl AttributeError
                 | Some (Callable f) \<Rightarrow> f args
                 | Some (Plain v) \<Rightarrow> Inr v)))"

subsection \<open>Eviction\<close>

text \<open>
  \<^verbatim>\<open>
  def _check_size_limit(self):
      if self.max_length is not None:
          while len(self._futures) > self.max_length:
              self._futures.popitem(last=False)
  \<close>
  \<open>popitem_loop\<close> is the \<^verbatim>\<open>while\<close> loop: \<^verbatim>\<open>popitem(last=False)\<close> removes the
  oldest entry and raises \<^verbatim>\<open>KeyError\<close> on an empty dictionary, which a negative
  \<open>max_length\<close> reaches. An operation returns its outcome together with the
  collection it leaves behind, since an exception does not undo a mutation.
\<close>

fun popitem_loop :: "int \<Rightarrow> ('k, 'h) ordered_dict \<Rightarrow> (error + unit) \<times> ('k, 'h) ordered_dict" where
  "popitem_loop m d =
     (if int (length d) > m
      then (case d of
              [] \<Rightarrow> (Inl KeyError, [])
            | kv # rest \<Rightarrow> popitem_loop m rest)
      else (Inr (), d))"

declare popitem_loop.simps [simp del]

definition check_size_limit ::
  "('k, 'h) future_collection \<Rightarrow> (error + unit) \<times> ('k, 'h) future_collection" where
  "check_size_limit fc =
     (case max_length fc of
        None \<Rightarrow> (Inr (), fc)
      | Some m \<Rightarrow>
          (case popitem_loop m (futures fc) of
             (r, d) \<Rightarrow> (r, fc\<lparr>futures := d\<rparr>)))"

subsection \<open>add and pop\<close>

text \<open>
  \<^verbatim>\<open>
  def add(self, future_key, future):
      if future_key in self._futures:
          raise ValueError("future_key {} already exists".format(future_key))
      self._futures[future_key] = future
      self._check_size_limit()

  def pop(self, future_key):
      return self._futures.pop(future_key, None)
  \<close>
\<close>

definition add ::
  "('k, 'h) future_collection \<Rightarrow> 'k \<Rightarrow> 'h \<Rightarrow> (error + unit) \<times> ('k, 'h) future_collection" where
  "add fc future_key future =
     (if future_key \<in> set (od_keys (futures fc)) then (Inl ValueError, fc)
      else check_size_limit (fc\<lparr>futures := od_setitem (futures fc) future_key future\<rparr>))"

definition pop ::
  "('k, 'h) future_collection \<Rightarrow> 'k \<Rightarrow> 'h option \<times> ('k, 'h) future_collection" where
  "pop fc future_key =
     (case od_pop (futures fc) future_key of
        (r, d) \<Rightarrow> (r, fc\<lparr>futures := d\<rparr>))"

subsection \<open>Sequences of calls\<close>

text \<open>
  A caller that makes one call after the other, catching what a call raises and going
  on with the collection as the call left it.
\<close>

datatype ('k, 'h) call = Add 'k 'h | Pop 'k

fun call_step :: "('k, 'h) future_collection \<Rightarrow> ('k, 'h) call \<Rightarrow> ('k, 'h) future_collection" where
  "call_step fc (Add k h) = snd (add fc k h)"
| "call_step fc (Pop k) = snd (pop fc k)"

fun run :: "('k, 'h) future_collection \<Rightarrow> ('k, 'h) call list \<Rightarrow> ('k, 'h) future_collection" where
  "run fc [] = fc"
| "run fc (c # cs) = run (call_step fc c) cs"

definition add_all :: "('k, 'h) future_collection \<Rightarrow> ('k \<times> 'h) list \<Rightarrow> ('k, 'h) future_collection" where
  "add_all fc kvs = run fc (map (\<lambda>kv. Add (fst kv) (snd kv)) kvs)"

text \<open>The entries of a sequence of \<^verbatim>\<open>add\<close> calls whose call returned normally.\<close>

fun accepted :: "('k, 'h) future_collection \<Rightarrow> ('k \<times> 'h) list \<Rightarrow> ('k \<times> 'h) list" where
  "accepted fc [] = []"
| "accepted fc (kv # kvs) =
     (case add fc (fst kv) (snd kv) of
        (Inr _, fc') \<Rightarrow> kv # accepted fc' kvs
      | (Inl _, fc') \<Rightarrow> accepted fc' kvs)"

text \<open>The \<open>n\<close> most recent entries of a list in insertion order.\<close>

definition most_recent :: "nat \<Rightarrow> 'a list \<Rightarrow> 'a list" where
  "most_recent n xs = drop (length xs - n) xs"

subsection \<open>A future for concrete instances\<close>

text \<open>
  What the names of a \<^verbatim>\<open>Future\<close> that finished with the result \<open>h\<close> resolve to:
  the methods \<^verbatim>\<open>done\<close>, \<^verbatim>\<open>result\<close> and \<^verbatim>\<open>exception\<close>, the plain attribute
  \<^verbatim>\<open>_state\<close>, and a method \<^verbatim>\<open>fail\<close> that raises. It is used only to evaluate
  the theorems below at concrete inputs.
\<close>

datatype pyvalue = PyBool bool | PyInt int | PyStr string

definition finished_future :: "int \<Rightarrow> string \<Rightarrow> (unit, pyvalue) attribute option" where
  "finished_future h name =
     (if name = ''done'' then Some (Callable (\<lambda>args. Inr (Some (PyBool True))))
      else if name = ''result'' then Some (Callable (\<lambda>args. Inr (Some (PyInt h))))
      else if name = ''exception'' then Some (Callable (\<lambda>args. Inr None))
      else if name = ''fail'' then Some (Callable (\<lambda>args. Inl (HandleError ''TimeoutError'')))
      else if name = ''_state'' then Some (Plain (Some (PyStr ''FINISHED'')))
      else None)"

text \<open>Whether a sequence of calls has an \<^verbatim>\<open>add\<close> of the key \<open>k\<close>.\<close>

fun adds_key :: "'k \<Rightarrow> ('k, 'h) call list \<Rightarrow> bool" where
  "adds_key k [] \<longleftrightarrow> False"
| "adds_key k (Add k' h # cs) \<longleftrightarrow> k' = k \<or> adds_key k cs"
| "adds_key k (Pop k' # cs) \<longleftrightarrow> adds_key k cs"

text \<open>Whether the dictionary stores the future \<open>h\<close> under a key other than \<open>k\<close>.\<close>

fun stored_under_other_key :: "('k, 'h) ordered_dict \<Rightarrow> 'k \<Rightarrow> 'h \<Rightarrow> bool" where
  "stored_under_other_key [] k h \<longleftrightarrow> False"
| "stored_under_other_key (kv # d) k h \<longleftrightarrow>
     (fst kv \<noteq> k \<and> snd kv = h) \<or> stored_under_other_key d k h"

subsection \<open>The retained entries as the specification words them\<close>

text \<open>
  The bound-maintenance sentence of the specification, extended to calls of
  \<^verbatim>\<open>pop\<close>, speaks of ``the \<open>N\<close> most-recently-added keys not yet popped''. The
  functions below follow these words and nothing else; they read the calls alone and
  are what the source is compared with. \<open>spec_added_keys\<close> lists the keys of the
  \<^verbatim>\<open>add\<close> calls in order, \<open>spec_not_yet_popped\<close> the keys added and not popped
  since. The sentence reads in two ways: the \<open>n\<close> most recent of the keys not yet
  popped, or those of the \<open>n\<close> most recently added keys that are not yet popped.
\<close>

fun spec_added_keys :: "('k, 'h) call list \<Rightarrow> 'k list" where
  "spec_added_keys [] = []"
| "spec_added_keys (Add k h # cs) = k # spec_added_keys cs"
| "spec_added_keys (Pop k # cs) = spec_added_keys cs"

fun spec_not_yet_popped :: "'k list \<Rightarrow> ('k, 'h) call list \<Rightarrow> 'k list" where
  "spec_not_yet_popped acc [] = acc"
| "spec_not_yet_popped acc (Add k h # cs) =
     spec_not_yet_popped (if k \<in> set acc then acc else acc @ [k]) cs"
| "spec_not_yet_popped acc (Pop k # cs) = spec_not_yet_popped (removeAll k acc) cs"

definition spec_recent_of_not_popped :: "nat \<Rightarrow> ('k, 'h) call list \<Rightarrow> 'k list" where
  "spec_recent_of_not_popped n cs = most_recent n (spec_not_yet_popped [] cs)"

definition spec_not_popped_of_recent :: "nat \<Rightarrow> ('k, 'h) call list \<Rightarrow> 'k list" where
  "spec_not_popped_of_recent n cs =
     filter (\<lambda>k. k \<in> set (spec_not_yet_popped [] cs)) (most_recent n (spec_added_keys cs))"

section \<open>Helper lemmas\<close>

lemmas collection_defs = add_def pop_def od_pop_def od_setitem_def od_keys_def od_values_def
  check_size_limit_def popitem_loop.simps init_def init_default_def len_def contains_def
  most_recent_def add_all_def
  spec_recent_of_not_popped_def spec_not_popped_of_recent_def

lemma init_simps:
  "max_length (init m) = m" "futures (init m) = []" "len (init m) = 0"
  by (simp_all add: init_def len_def)

lemma in_od_keys_iff: "k \<in> set (od_keys d) \<longleftrightarrow> map_of d k \<noteq> None"
  by (simp add: od_keys_def map_of_eq_None_iff)

lemma map_of_Some_in_keys: "map_of d k = Some h \<Longrightarrow> k \<in> set (od_keys d)"
  by (simp add: in_od_keys_iff)

lemma pop_absent: "k \<notin> set (od_keys (futures fc)) \<Longrightarrow> pop fc k = (None, fc)"
  by (simp add: pop_def od_pop_def in_od_keys_iff)

lemma pop_present:
  "map_of (futures fc) k = Some h \<Longrightarrow>
   pop fc k = (Some h, fc\<lparr>futures := filter (\<lambda>kv. fst kv \<noteq> k) (futures fc)\<rparr>)"
  by (simp add: pop_def od_pop_def)

lemma future_attr_absent:
  "k \<notin> set (od_keys (futures fc)) \<Longrightarrow> future_attr getattr fc attr k args = Inr None"
  by (simp add: future_attr_def)

lemma future_attr_present:
  "map_of (futures fc) k = Some h \<Longrightarrow>
   future_attr getattr fc attr k args =
     (case getattr h attr of
        None \<Rightarrow> Inl AttributeError
      | Some (Callable f) \<Rightarrow> f args
      | Some (Plain v) \<Rightarrow> Inr v)"
  by (simp add: future_attr_def in_od_keys_iff)

subsection \<open>The eviction loop\<close>

text \<open>
  With a bound that is not negative the loop raises nothing and leaves the newest
  entries, as many as the bound allows; with a negative bound it empties the
  dictionary and raises.
\<close>

lemma popitem_loop_nonneg:
  "0 \<le> m \<Longrightarrow> popitem_loop m d = (Inr (), drop (length d - nat m) d)"
proof (induction d)
  case Nil
  then show ?case by (simp add: popitem_loop.simps [of m "[]"])
next
  case (Cons kv rest)
  show ?case
  proof (cases "int (length (kv # rest)) > m")
    case True
    with Cons.prems have "Suc (length rest) - nat m = Suc (length rest - nat m)"
      by simp
    with True Cons show ?thesis
      by (simp add: popitem_loop.simps [of m "kv # rest"])
  next
    case False
    then show ?thesis
      by (simp add: popitem_loop.simps [of m "kv # rest"])
  qed
qed

lemma popitem_loop_negative:
  "m < 0 \<Longrightarrow> popitem_loop m d = (Inl KeyError, [])"
  by (induction d) (simp_all add: popitem_loop.simps [of m "[]"] popitem_loop.simps [of m "_ # _"])

lemma set_popitem_loop: "set (snd (popitem_loop m d)) \<subseteq> set d"
proof (induction d)
  case Nil
  show ?case by (simp add: popitem_loop.simps [of m "[]"])
next
  case (Cons kv rest)
  then show ?case
    by (auto simp: popitem_loop.simps [of m "kv # rest"])
qed

lemma od_invariant_popitem_loop:
  "od_invariant d \<Longrightarrow> od_invariant (snd (popitem_loop m d))"
proof (induction d)
  case Nil
  show ?case by (simp add: popitem_loop.simps [of m "[]"] od_invariant_def)
next
  case (Cons kv rest)
  then show ?case
    by (simp add: popitem_loop.simps [of m "kv # rest"] od_invariant_def)
qed

lemma length_most_recent: "length (most_recent n xs) = min n (length xs)"
  by (simp add: most_recent_def)

lemma most_recent_all: "length xs \<le> n \<Longrightarrow> most_recent n xs = xs"
  by (simp add: most_recent_def)

lemma most_recent_snoc:
  "most_recent n (most_recent n xs @ [x]) = most_recent n (xs @ [x])"
  by (cases "length xs \<le> n") (simp_all add: most_recent_def Suc_diff_le)

lemma last_in_most_recent: "0 < n \<Longrightarrow> x \<in> set (most_recent n (xs @ [x]))"
  by (simp add: most_recent_def)

lemma stored_under_other_key_iff:
  "stored_under_other_key d k h \<longleftrightarrow> (\<exists>kv \<in> set d. fst kv \<noteq> k \<and> snd kv = h)"
  by (induction d) auto

subsection \<open>One call\<close>

lemma add_present:
  "k \<in> set (od_keys (futures fc)) \<Longrightarrow> add fc k h = (Inl ValueError, fc)"
  by (simp add: add_def)

lemma add_absent_bounded:
  assumes "max_length fc = Some N" and "0 \<le> N" and "k \<notin> set (od_keys (futures fc))"
  shows "add fc k h = (Inr (), fc\<lparr>futures := most_recent (nat N) (futures fc @ [(k, h)])\<rparr>)"
  using assms
  by (simp add: add_def od_setitem_def check_size_limit_def popitem_loop_nonneg most_recent_def)

lemma add_absent_unbounded:
  assumes "max_length fc = None" and "k \<notin> set (od_keys (futures fc))"
  shows "add fc k h = (Inr (), fc\<lparr>futures := futures fc @ [(k, h)]\<rparr>)"
  using assms by (simp add: add_def od_setitem_def check_size_limit_def)

lemma futures_pop: "futures (snd (pop fc k)) = filter (\<lambda>kv. fst kv \<noteq> k) (futures fc)"
proof (cases "map_of (futures fc) k")
  case None
  then have "\<forall>kv \<in> set (futures fc). fst kv \<noteq> k"
    by (auto simp: map_of_eq_None_iff)
  then have "filter (\<lambda>kv. fst kv \<noteq> k) (futures fc) = futures fc"
    by (simp add: filter_id_conv)
  with None show ?thesis
    by (simp add: pop_def od_pop_def)
next
  case (Some h)
  then show ?thesis by (simp add: pop_present)
qed

lemma max_length_add: "max_length (snd (add fc k h)) = max_length fc"
  by (simp add: add_def check_size_limit_def split: option.splits prod.splits)

lemma max_length_pop: "max_length (snd (pop fc k)) = max_length fc"
  by (simp add: pop_def split: prod.splits)

lemma max_length_call_step: "max_length (call_step fc c) = max_length fc"
  by (cases c) (simp_all add: max_length_add max_length_pop)

lemma keys_add_subset:
  "set (od_keys (futures (snd (add fc k h)))) \<subseteq> insert k (set (od_keys (futures fc)))"
proof (cases "k \<in> set (od_keys (futures fc))")
  case True
  then show ?thesis by (auto simp: add_present)
next
  case False
  show ?thesis
  proof (cases "max_length fc")
    case None
    with False show ?thesis
      by (auto simp: add_absent_unbounded od_keys_def)
  next
    case (Some m)
    have "set (snd (popitem_loop m (futures fc @ [(k, h)]))) \<subseteq> set (futures fc @ [(k, h)])"
      by (rule set_popitem_loop)
    then have "fst ` set (snd (popitem_loop m (futures fc @ [(k, h)]))) \<subseteq> insert k (fst ` set (futures fc))"
      by auto
    with False Some show ?thesis
      by (cases "popitem_loop m (futures fc @ [(k, h)])")
         (simp add: add_def od_setitem_def check_size_limit_def od_keys_def)
  qed
qed

lemma keys_pop_subset:
  "set (od_keys (futures (snd (pop fc k')))) \<subseteq> set (od_keys (futures fc))"
  by (auto simp: futures_pop od_keys_def)

lemma absent_after_pop: "k \<notin> set (od_keys (futures (snd (pop fc k))))"
  by (auto simp: futures_pop od_keys_def)

lemma length_filter_other_keys:
  "distinct (map fst d) \<Longrightarrow> map_of d k = Some h \<Longrightarrow>
   Suc (length (filter (\<lambda>kv. fst kv \<noteq> k) d)) = length d"
proof (induction d)
  case Nil
  then show ?case by simp
next
  case (Cons kv d)
  show ?case
  proof (cases "fst kv = k")
    case True
    with Cons.prems(1) have "k \<notin> fst ` set d"
      by simp
    then have "\<forall>kv' \<in> set d. fst kv' \<noteq> k"
      by force
    then have "filter (\<lambda>kv. fst kv \<noteq> k) d = d"
      by (simp add: filter_id_conv)
    with True show ?thesis by simp
  next
    case False
    with Cons.prems(2) have "map_of d k = Some h"
      by (cases kv) (simp split: if_splits)
    with Cons.prems(1) have "Suc (length (filter (\<lambda>kv. fst kv \<noteq> k) d)) = length d"
      by (intro Cons.IH) simp_all
    with False show ?thesis by simp
  qed
qed

lemma len_add_bounded:
  assumes "max_length fc = Some N" and "0 \<le> N" and "int (len fc) \<le> N"
  shows "int (len (snd (add fc k h))) \<le> N"
proof (cases "k \<in> set (od_keys (futures fc))")
  case True
  with assms show ?thesis by (simp add: add_present)
next
  case False
  with assms(1,2) show ?thesis
    by (simp add: add_absent_bounded len_def length_most_recent)
qed

lemma len_pop_le: "len (snd (pop fc k)) \<le> len fc"
  by (simp add: len_def futures_pop)

lemma len_call_step_bounded:
  assumes "max_length fc = Some N" and "0 \<le> N" and "int (len fc) \<le> N"
  shows "int (len (call_step fc c)) \<le> N"
proof (cases c)
  case (Add k h)
  with assms show ?thesis by (simp add: len_add_bounded)
next
  case (Pop k)
  have "len (snd (pop fc k)) \<le> len fc" by (rule len_pop_le)
  with assms(3) Pop show ?thesis by simp
qed

subsection \<open>The dictionary invariant\<close>

text \<open>The keys stay distinct through every call, from the empty collection on.\<close>

lemma od_invariant_init: "od_invariant (futures (init m))"
  by (simp add: init_def od_invariant_def)

lemma od_invariant_add:
  assumes "od_invariant (futures fc)"
  shows "od_invariant (futures (snd (add fc k h)))"
proof (cases "k \<in> set (od_keys (futures fc))")
  case True
  with assms show ?thesis by (simp add: add_present)
next
  case False
  with assms have appended: "od_invariant (futures fc @ [(k, h)])"
    by (simp add: od_invariant_def od_keys_def)
  show ?thesis
  proof (cases "max_length fc")
    case None
    with False appended show ?thesis
      by (simp add: add_absent_unbounded)
  next
    case (Some m)
    from appended have "od_invariant (snd (popitem_loop m (futures fc @ [(k, h)])))"
      by (rule od_invariant_popitem_loop)
    with False Some show ?thesis
      by (cases "popitem_loop m (futures fc @ [(k, h)])")
         (simp add: add_def od_setitem_def check_size_limit_def)
  qed
qed

lemma od_invariant_pop:
  "od_invariant (futures fc) \<Longrightarrow> od_invariant (futures (snd (pop fc k)))"
  by (simp add: futures_pop od_invariant_def distinct_map_filter)

lemma od_invariant_run:
  "od_invariant (futures fc) \<Longrightarrow> od_invariant (futures (run fc cs))"
proof (induction cs arbitrary: fc)
  case Nil
  then show ?case by simp
next
  case (Cons c cs)
  from Cons.prems have "od_invariant (futures (call_step fc c))"
    by (cases c) (simp_all add: od_invariant_add od_invariant_pop)
  then have "od_invariant (futures (run (call_step fc c) cs))"
    by (rule Cons.IH)
  then show ?case by simp
qed

subsection \<open>Sequences of calls\<close>

lemma max_length_run: "max_length (run fc cs) = max_length fc"
  by (induction cs arbitrary: fc) (simp_all add: max_length_call_step)

lemma len_run_bounded:
  assumes "max_length fc = Some N" and "0 \<le> N" and "int (len fc) \<le> N"
  shows "int (len (run fc cs)) \<le> N"
  using assms
proof (induction cs arbitrary: fc)
  case Nil
  then show ?case by simp
next
  case (Cons c cs)
  have "max_length (call_step fc c) = Some N"
    using Cons.prems(1) by (simp add: max_length_call_step)
  moreover have "int (len (call_step fc c)) \<le> N"
    using Cons.prems by (rule len_call_step_bounded)
  ultimately have "int (len (run (call_step fc c) cs)) \<le> N"
    using Cons.prems(2) by (intro Cons.IH)
  then show ?case by simp
qed

lemma absent_run:
  assumes "k \<notin> set (od_keys (futures fc))" and "\<not> adds_key k cs"
  shows "k \<notin> set (od_keys (futures (run fc cs)))"
  using assms
proof (induction cs arbitrary: fc)
  case Nil
  then show ?case by simp
next
  case (Cons c cs)
  show ?case
  proof (cases c)
    case (Add k' h')
    with Cons.prems(2) have "k' \<noteq> k" and rest: "\<not> adds_key k cs"
      by simp_all
    with Cons.prems(1) keys_add_subset [of fc k' h']
    have "k \<notin> set (od_keys (futures (snd (add fc k' h'))))"
      by auto
    then have "k \<notin> set (od_keys (futures (run (snd (add fc k' h')) cs)))"
      using rest by (rule Cons.IH)
    with Add show ?thesis by simp
  next
    case (Pop k')
    with Cons.prems(2) have rest: "\<not> adds_key k cs"
      by simp
    from Cons.prems(1) keys_pop_subset [of fc k']
    have "k \<notin> set (od_keys (futures (snd (pop fc k'))))"
      by auto
    then have "k \<notin> set (od_keys (futures (run (snd (pop fc k')) cs)))"
      using rest by (rule Cons.IH)
    with Pop show ?thesis by simp
  qed
qed

lemma add_all_Cons:
  "add_all fc (kv # kvs) = add_all (snd (add fc (fst kv) (snd kv))) kvs"
  by (simp add: add_all_def)

lemma add_all_most_recent:
  assumes "max_length fc = Some N" and "0 \<le> N"
    and "futures fc = most_recent (nat N) hist"
  shows "futures (add_all fc kvs) = most_recent (nat N) (hist @ accepted fc kvs)"
  using assms
proof (induction kvs arbitrary: fc hist)
  case Nil
  then show ?case by (simp add: add_all_def)
next
  case (Cons kv kvs)
  show ?case
  proof (cases "fst kv \<in> set (od_keys (futures fc))")
    case True
    then have rejected: "add fc (fst kv) (snd kv) = (Inl ValueError, fc)"
      by (rule add_present)
    have "futures (add_all fc kvs) = most_recent (nat N) (hist @ accepted fc kvs)"
      using Cons.prems by (rule Cons.IH)
    with rejected show ?thesis
      by (simp add: add_all_Cons)
  next
    case False
    define fc' where "fc' = fc\<lparr>futures := most_recent (nat N) (futures fc @ [kv])\<rparr>"
    from False Cons.prems(1,2) have added: "add fc (fst kv) (snd kv) = (Inr (), fc')"
      by (simp add: add_absent_bounded fc'_def)
    have "futures fc' = most_recent (nat N) ((hist @ [kv]))"
      using Cons.prems(3) by (simp add: fc'_def most_recent_snoc)
    moreover have "max_length fc' = Some N"
      using Cons.prems(1) by (simp add: fc'_def)
    ultimately have "futures (add_all fc' kvs) = most_recent (nat N) ((hist @ [kv]) @ accepted fc' kvs)"
      using Cons.prems(2) by (intro Cons.IH)
    with added show ?thesis
      by (simp add: add_all_Cons)
  qed
qed

lemma add_all_unbounded:
  assumes "max_length fc = None" and "distinct (map fst (futures fc @ kvs))"
  shows "futures (add_all fc kvs) = futures fc @ kvs"
  using assms
proof (induction kvs arbitrary: fc)
  case Nil
  then show ?case by (simp add: add_all_def)
next
  case (Cons kv kvs)
  define fc' where "fc' = fc\<lparr>futures := futures fc @ [kv]\<rparr>"
  from Cons.prems(2) have "fst kv \<notin> set (od_keys (futures fc))"
    by (simp add: od_keys_def)
  with Cons.prems(1) have added: "add fc (fst kv) (snd kv) = (Inr (), fc')"
    by (simp add: add_absent_unbounded fc'_def)
  have "max_length fc' = None"
    using Cons.prems(1) by (simp add: fc'_def)
  moreover have "distinct (map fst (futures fc' @ kvs))"
    using Cons.prems(2) by (simp add: fc'_def)
  ultimately have "futures (add_all fc' kvs) = futures fc' @ kvs"
    by (rule Cons.IH)
  with added show ?case
    by (simp add: add_all_Cons fc'_def)
qed

section \<open>The bound and eviction\<close>

text \<open>
  C1, as amended. For a collection constructed with \<open>max_length = N\<close>, \<open>N \<ge> 0\<close>, and
  every sequence \<open>cs\<close> of \<open>add\<close> and \<open>pop\<close> calls (so after every call of it, each
  prefix being such a sequence):
  \<^item> the size is at most \<open>N\<close>;
  \<^item> an \<open>add\<close> of an absent key returns normally and keeps exactly the \<open>N\<close> most
    recent of the entries present and the new one: it removes the oldest entries
    first and no more than the bound asks for;
  \<^item> a \<open>pop\<close> removes the entry of its key and nothing else;
  \<^item> after a sequence of \<open>add\<close> calls alone the entries retained are exactly the
    \<open>N\<close> most recent of the entries whose \<open>add\<close> returned normally.
  An evicted entry does not come back when a later \<open>pop\<close> makes room, which is
  what the claim as stated misses.
\<close>

theorem bounded_collection_keeps_most_recent:
  assumes "0 \<le> N"
  shows "int (len (run (init (Some N)) cs)) \<le> N
       \<and> (k \<notin> set (od_keys (futures (run (init (Some N)) cs))) \<longrightarrow>
            add (run (init (Some N)) cs) k h =
              (Inr (), (run (init (Some N)) cs)
                 \<lparr>futures := most_recent (nat N) (futures (run (init (Some N)) cs) @ [(k, h)])\<rparr>))
       \<and> futures (snd (pop (run (init (Some N)) cs) k)) =
            filter (\<lambda>kv. fst kv \<noteq> k) (futures (run (init (Some N)) cs))
       \<and> futures (add_all (init (Some N)) kvs) =
            most_recent (nat N) (accepted (init (Some N)) kvs)"
proof (intro conjI impI)
  show "int (len (run (init (Some N)) cs)) \<le> N"
    using assms by (intro len_run_bounded) (simp_all add: init_simps)
next
  assume "k \<notin> set (od_keys (futures (run (init (Some N)) cs)))"
  moreover have "max_length (run (init (Some N)) cs) = Some N"
    by (simp add: max_length_run init_simps)
  ultimately show "add (run (init (Some N)) cs) k h =
      (Inr (), (run (init (Some N)) cs)
         \<lparr>futures := most_recent (nat N) (futures (run (init (Some N)) cs) @ [(k, h)])\<rparr>)"
    using assms by (intro add_absent_bounded)
next
  show "futures (snd (pop (run (init (Some N)) cs) k)) =
      filter (\<lambda>kv. fst kv \<noteq> k) (futures (run (init (Some N)) cs))"
    by (rule futures_pop)
next
  have "futures (add_all (init (Some N)) kvs) =
      most_recent (nat N) ([] @ accepted (init (Some N)) kvs)"
    using assms by (intro add_all_most_recent) (simp_all add: init_simps most_recent_def)
  then show "futures (add_all (init (Some N)) kvs) =
      most_recent (nat N) (accepted (init (Some N)) kvs)"
    by simp
qed

theorem bounded_collection_keeps_most_recent_witness:
  "(0::int) \<le> 2
 \<and> run (init (Some 2)) [Add ''a'' (1::int), Add ''b'' 2, Add ''c'' 3]
     = \<lparr>max_length = Some 2, futures = [(''b'', 2), (''c'', 3)]\<rparr>
 \<and> int (len (run (init (Some 2)) [Add ''a'' (1::int), Add ''b'' 2, Add ''c'' 3])) \<le> 2
 \<and> ''d'' \<notin> set (od_keys (futures (run (init (Some 2)) [Add ''a'' (1::int), Add ''b'' 2, Add ''c'' 3])))
 \<and> add (run (init (Some 2)) [Add ''a'' (1::int), Add ''b'' 2, Add ''c'' 3]) ''d'' 4
     = (Inr (), \<lparr>max_length = Some 2, futures = [(''c'', 3), (''d'', 4)]\<rparr>)
 \<and> futures (snd (pop (run (init (Some 2)) [Add ''a'' (1::int), Add ''b'' 2, Add ''c'' 3]) ''d''))
     = [(''b'', 2), (''c'', 3)]
 \<and> futures (add_all (init (Some 2)) [(''a'', 1::int), (''b'', 2), (''b'', 5), (''c'', 3)])
     = [(''b'', 2), (''c'', 3)]"
proof -
  have bound: "(0::int) \<le> 2"
    by simp
  have state: "run (init (Some 2)) [Add ''a'' (1::int), Add ''b'' 2, Add ''c'' 3]
      = \<lparr>max_length = Some 2, futures = [(''b'', 2), (''c'', 3)]\<rparr>"
    by (simp add: collection_defs)
  have absent: "''d'' \<notin> set (od_keys (futures (run (init (Some 2)) [Add ''a'' (1::int), Add ''b'' 2, Add ''c'' 3])))"
    by (subst state) (simp add: od_keys_def)
  note inst = bounded_collection_keeps_most_recent
    [OF bound, where cs = "[Add ''a'' (1::int), Add ''b'' 2, Add ''c'' 3]" and k = "''d''"
       and h = 4 and kvs = "[(''a'', 1::int), (''b'', 2), (''b'', 5), (''c'', 3)]"]
  from inst have size: "int (len (run (init (Some 2)) [Add ''a'' (1::int), Add ''b'' 2, Add ''c'' 3])) \<le> 2"
    by (rule conjunct1)
  from inst [THEN conjunct2, THEN conjunct1, THEN mp, OF absent]
  have added: "add (run (init (Some 2)) [Add ''a'' (1::int), Add ''b'' 2, Add ''c'' 3]) ''d'' 4
      = (Inr (), \<lparr>max_length = Some 2, futures = [(''c'', 3), (''d'', 4)]\<rparr>)"
    unfolding state by (simp add: most_recent_def)
  from inst [THEN conjunct2, THEN conjunct2, THEN conjunct1]
  have popped: "futures (snd (pop (run (init (Some 2)) [Add ''a'' (1::int), Add ''b'' 2, Add ''c'' 3]) ''d''))
      = [(''b'', 2), (''c'', 3)]"
    unfolding state by simp
  have "accepted (init (Some 2)) [(''a'', 1::int), (''b'', 2), (''b'', 5), (''c'', 3)]
      = [(''a'', 1), (''b'', 2), (''c'', 3)]"
    by (simp add: collection_defs)
  with inst [THEN conjunct2, THEN conjunct2, THEN conjunct2]
  have sequence: "futures (add_all (init (Some 2)) [(''a'', 1::int), (''b'', 2), (''b'', 5), (''c'', 3)])
      = [(''b'', 2), (''c'', 3)]"
    by (simp add: most_recent_def)
  from bound state size absent added popped sequence show ?thesis
    by (intro conjI)
qed

text \<open>
  C1 as stated fails once calls of \<open>pop\<close> follow an eviction. With
  \<open>max_length = 2\<close>, the calls \<^verbatim>\<open>add("a", 1)\<close>, \<^verbatim>\<open>add("b", 2)\<close>,
  \<^verbatim>\<open>add("c", 3)\<close> (which evicts \<^verbatim>\<open>a\<close>), \<^verbatim>\<open>pop("c")\<close>, \<^verbatim>\<open>add("d", 4)\<close>,
  \<^verbatim>\<open>pop("d")\<close> leave the key \<^verbatim>\<open>b\<close> alone. The two most recent of the keys
  added and not yet popped are \<^verbatim>\<open>a\<close> and \<^verbatim>\<open>b\<close>; of the two most recently
  added keys, \<^verbatim>\<open>c\<close> and \<^verbatim>\<open>d\<close>, none is left unpopped. The collection holds
  neither.
\<close>

theorem not_yet_popped_counterexample:
  "od_keys (futures (run (init (Some 2))
      [Add ''a'' (1::int), Add ''b'' 2, Add ''c'' 3, Pop ''c'', Add ''d'' 4, Pop ''d''])) = [''b'']
 \<and> spec_recent_of_not_popped 2
      [Add ''a'' (1::int), Add ''b'' 2, Add ''c'' 3, Pop ''c'', Add ''d'' 4, Pop ''d''] = [''a'', ''b'']
 \<and> spec_not_popped_of_recent 2
      [Add ''a'' (1::int), Add ''b'' 2, Add ''c'' 3, Pop ''c'', Add ''d'' 4, Pop ''d''] = []
 \<and> od_keys (futures (run (init (Some 2))
      [Add ''a'' (1::int), Add ''b'' 2, Add ''c'' 3, Pop ''c'', Add ''d'' 4, Pop ''d'']))
     \<noteq> spec_recent_of_not_popped 2
      [Add ''a'' (1::int), Add ''b'' 2, Add ''c'' 3, Pop ''c'', Add ''d'' 4, Pop ''d'']
 \<and> od_keys (futures (run (init (Some 2))
      [Add ''a'' (1::int), Add ''b'' 2, Add ''c'' 3, Pop ''c'', Add ''d'' 4, Pop ''d'']))
     \<noteq> spec_not_popped_of_recent 2
      [Add ''a'' (1::int), Add ''b'' 2, Add ''c'' 3, Pop ''c'', Add ''d'' 4, Pop ''d'']"
  by (simp add: collection_defs)

text \<open>
  C5. In a collection with \<open>max_length = N\<close>, \<open>N \<ge> 0\<close>, of any size (the bound may have
  been lowered since the entries were added), one \<open>add\<close> of an absent key returns
  normally and removes exactly the oldest entries beyond the bound, \<open>len + 1 - N\<close>
  of them, possibly several. With \<open>max_length = 0\<close> that includes the entry just
  inserted, and the collection is empty after the call.
\<close>

theorem add_evicts_down_to_bound:
  assumes "max_length fc = Some N" and "0 \<le> N" and "k \<notin> set (od_keys (futures fc))"
  shows "add fc k h =
           (Inr (), fc\<lparr>futures := drop (Suc (len fc) - nat N) (futures fc @ [(k, h)])\<rparr>)
       \<and> len (snd (add fc k h)) = min (nat N) (Suc (len fc))
       \<and> (N = 0 \<longrightarrow> futures (snd (add fc k h)) = [] \<and> len (snd (add fc k h)) = 0)"
proof -
  from assms have added: "add fc k h =
      (Inr (), fc\<lparr>futures := most_recent (nat N) (futures fc @ [(k, h)])\<rparr>)"
    by (rule add_absent_bounded)
  then have "add fc k h =
      (Inr (), fc\<lparr>futures := drop (Suc (len fc) - nat N) (futures fc @ [(k, h)])\<rparr>)"
    by (simp add: most_recent_def len_def)
  moreover from added have "len (snd (add fc k h)) = min (nat N) (Suc (len fc))"
    by (simp add: len_def length_most_recent)
  moreover from added have "futures (snd (add fc k h)) = [] \<and> len (snd (add fc k h)) = 0" if "N = 0"
    using that by (simp add: len_def most_recent_def)
  ultimately show ?thesis by blast
qed

theorem add_evicts_down_to_bound_witness:
  "add \<lparr>max_length = Some 0, futures = []\<rparr> ''a'' (1::int)
     = (Inr (), \<lparr>max_length = Some 0, futures = []\<rparr>)
 \<and> len (snd (add \<lparr>max_length = Some 0, futures = []\<rparr> ''a'' (1::int))) = 0
 \<and> add \<lparr>max_length = Some 1, futures = [(''a'', 1::int), (''b'', 2), (''c'', 3)]\<rparr> ''d'' 4
     = (Inr (), \<lparr>max_length = Some 1, futures = [(''d'', 4)]\<rparr>)
 \<and> len (snd (add \<lparr>max_length = Some 1, futures = [(''a'', 1::int), (''b'', 2), (''c'', 3)]\<rparr> ''d'' 4)) = 1"
proof -
  have zero: "max_length \<lparr>max_length = Some 0, futures = ([] :: (string \<times> int) list)\<rparr> = Some 0"
    and "(0::int) \<le> 0"
    and absent_a: "''a'' \<notin> set (od_keys (futures \<lparr>max_length = Some 0, futures = ([] :: (string \<times> int) list)\<rparr>))"
    by (simp_all add: od_keys_def)
  note at_zero = add_evicts_down_to_bound [OF this, where h = 1]
  have one: "max_length \<lparr>max_length = Some 1, futures = [(''a'', 1::int), (''b'', 2), (''c'', 3)]\<rparr> = Some 1"
    and "(0::int) \<le> 1"
    and absent_d: "''d'' \<notin> set (od_keys (futures \<lparr>max_length = Some 1, futures = [(''a'', 1::int), (''b'', 2), (''c'', 3)]\<rparr>))"
    by (simp_all add: od_keys_def)
  note lowered = add_evicts_down_to_bound [OF this, where h = 4]
  from at_zero lowered show ?thesis
    by (simp add: len_def)
qed

text \<open>
  C8. With \<open>max_length = None\<close> no \<open>add\<close> evicts: an \<open>add\<close> of an absent key appends
  its entry and removes nothing, and after the \<open>add\<close> calls of any list of entries
  with distinct keys, from the empty collection, all of them are stored, however
  many they are.
\<close>

theorem unbounded_collection_never_evicts:
  "(max_length fc = None \<longrightarrow> k \<notin> set (od_keys (futures fc)) \<longrightarrow>
      add fc k h = (Inr (), fc\<lparr>futures := futures fc @ [(k, h)]\<rparr>)
    \<and> len (snd (add fc k h)) = Suc (len fc))
 \<and> (distinct (map fst kvs) \<longrightarrow>
      futures (add_all (init None) kvs) = kvs
    \<and> len (add_all (init None) kvs) = length kvs)"
proof (intro conjI impI)
  assume "max_length fc = None" and "k \<notin> set (od_keys (futures fc))"
  then show added: "add fc k h = (Inr (), fc\<lparr>futures := futures fc @ [(k, h)]\<rparr>)"
    by (rule add_absent_unbounded)
  then show "len (snd (add fc k h)) = Suc (len fc)"
    by (simp add: len_def)
next
  assume "distinct (map fst kvs)"
  then have "futures (add_all (init None) kvs) = futures (init None) @ kvs"
    by (intro add_all_unbounded) (simp_all add: init_simps)
  then show all: "futures (add_all (init None) kvs) = kvs"
    by (simp add: init_simps)
  then show "len (add_all (init None) kvs) = length kvs"
    by (simp add: len_def)
qed

theorem unbounded_collection_never_evicts_witness:
  "distinct (map fst [(''a'', 1::int), (''b'', 2), (''c'', 3)])
 \<and> futures (add_all (init None) [(''a'', 1::int), (''b'', 2), (''c'', 3)])
     = [(''a'', 1), (''b'', 2), (''c'', 3)]
 \<and> len (add_all (init None) [(''a'', 1::int), (''b'', 2), (''c'', 3)]) = 3
 \<and> max_length (add_all (init None) [(''a'', 1::int), (''b'', 2), (''c'', 3)]) = None
 \<and> ''d'' \<notin> set (od_keys (futures (add_all (init None) [(''a'', 1::int), (''b'', 2), (''c'', 3)])))
 \<and> len (snd (add (add_all (init None) [(''a'', 1::int), (''b'', 2), (''c'', 3)]) ''d'' 4)) = 4"
proof -
  have keys: "distinct (map fst [(''a'', 1::int), (''b'', 2), (''c'', 3)])"
    by simp
  note seq = unbounded_collection_never_evicts
    [where kvs = "[(''a'', 1::int), (''b'', 2), (''c'', 3)]", THEN conjunct2, THEN mp, OF keys]
  have unbounded: "max_length (add_all (init None) [(''a'', 1::int), (''b'', 2), (''c'', 3)]) = None"
    by (simp add: add_all_def max_length_add init_simps)
  have absent: "''d'' \<notin> set (od_keys (futures (add_all (init None) [(''a'', 1::int), (''b'', 2), (''c'', 3)])))"
    using seq by (simp add: od_keys_def)
  note step = unbounded_collection_never_evicts
    [where h = 4, THEN conjunct1, THEN mp, THEN mp, OF unbounded absent]
  from keys seq unbounded absent step show ?thesis
    by (simp add: len_def)
qed

section \<open>Duplicate keys\<close>

text \<open>
  C2. In a collection where the key \<open>k\<close> is present with the future \<open>h\<close>, \<open>add\<close> of
  \<open>k\<close> with another future \<open>h'\<close> raises \<open>ValueError\<close> and leaves the collection as it
  was: \<open>k\<close> still maps to \<open>h\<close>, and a \<open>pop\<close> of \<open>k\<close> after the failed call returns
  \<open>h\<close>.
\<close>

theorem add_duplicate_key_rejected:
  assumes "map_of (futures fc) k = Some h"
  shows "add fc k h' = (Inl ValueError, fc)
       \<and> map_of (futures (snd (add fc k h'))) k = Some h
       \<and> fst (pop (snd (add fc k h')) k) = Some h"
proof -
  from assms have "k \<in> set (od_keys (futures fc))"
    by (rule map_of_Some_in_keys)
  then have unchanged: "add fc k h' = (Inl ValueError, fc)"
    by (simp add: add_def)
  moreover from assms have "fst (pop fc k) = Some h"
    by (simp add: pop_present)
  ultimately show ?thesis
    using assms by simp
qed

theorem add_duplicate_key_rejected_witness:
  "map_of (futures \<lparr>max_length = Some 50, futures = [(''x'', 1::nat)]\<rparr>) ''x'' = Some 1
 \<and> add \<lparr>max_length = Some 50, futures = [(''x'', 1::nat)]\<rparr> ''x'' 2
     = (Inl ValueError, \<lparr>max_length = Some 50, futures = [(''x'', 1)]\<rparr>)
 \<and> fst (pop (snd (add \<lparr>max_length = Some 50, futures = [(''x'', 1::nat)]\<rparr> ''x'' 2)) ''x'')
     = Some 1"
proof -
  have present: "map_of (futures \<lparr>max_length = Some 50, futures = [(''x'', 1::nat)]\<rparr>) ''x'' = Some 1"
    by simp
  from add_duplicate_key_rejected [OF present, of 2] present show ?thesis
    by blast
qed

section \<open>Removal\<close>

text \<open>
  C6. In a collection (with distinct keys, as every dictionary has) where the key \<open>k\<close>
  is present with the future \<open>h\<close>, \<open>pop\<close> of \<open>k\<close> returns \<open>h\<close>, not \<open>None\<close>, and the
  size goes down by one. Right after it, and after any further calls among which
  there is no \<open>add\<close> of \<open>k\<close>, \<open>pop\<close> of \<open>k\<close> and the proxy for \<open>k\<close> return
  \<open>None\<close>.
\<close>

theorem pop_removes_entry:
  assumes "od_invariant (futures fc)" and "map_of (futures fc) k = Some h"
  shows "fst (pop fc k) = Some h
       \<and> Suc (len (snd (pop fc k))) = len fc
       \<and> pop (snd (pop fc k)) k = (None, snd (pop fc k))
       \<and> future_attr getattr (snd (pop fc k)) attr k args = Inr None
       \<and> (\<not> adds_key k cs \<longrightarrow>
            fst (pop (run (snd (pop fc k)) cs) k) = None
          \<and> future_attr getattr (run (snd (pop fc k)) cs) attr k args = Inr None)"
proof (intro conjI impI)
  from assms(2) show "fst (pop fc k) = Some h"
    by (simp add: pop_present)
next
  from assms have "Suc (length (filter (\<lambda>kv. fst kv \<noteq> k) (futures fc))) = length (futures fc)"
    by (intro length_filter_other_keys) (simp_all add: od_invariant_def)
  then show "Suc (len (snd (pop fc k))) = len fc"
    by (simp add: len_def futures_pop)
next
  show "pop (snd (pop fc k)) k = (None, snd (pop fc k))"
    by (rule pop_absent) (rule absent_after_pop)
next
  show "future_attr getattr (snd (pop fc k)) attr k args = Inr None"
    by (rule future_attr_absent) (rule absent_after_pop)
next
  assume "\<not> adds_key k cs"
  with absent_after_pop have absent: "k \<notin> set (od_keys (futures (run (snd (pop fc k)) cs)))"
    by (rule absent_run)
  then show "fst (pop (run (snd (pop fc k)) cs) k) = None"
    by (simp add: pop_absent)
  from absent show "future_attr getattr (run (snd (pop fc k)) cs) attr k args = Inr None"
    by (rule future_attr_absent)
qed

theorem pop_removes_entry_witness:
  "od_invariant (futures \<lparr>max_length = Some 50, futures = [(''a'', 1::int), (''b'', 2)]\<rparr>)
 \<and> map_of (futures \<lparr>max_length = Some 50, futures = [(''a'', 1::int), (''b'', 2)]\<rparr>) ''b'' = Some 2
 \<and> pop \<lparr>max_length = Some 50, futures = [(''a'', 1::int), (''b'', 2)]\<rparr> ''b''
     = (Some 2, \<lparr>max_length = Some 50, futures = [(''a'', 1)]\<rparr>)
 \<and> len (snd (pop \<lparr>max_length = Some 50, futures = [(''a'', 1::int), (''b'', 2)]\<rparr> ''b'')) = 1
 \<and> \<not> adds_key ''b'' [Add ''c'' (3::int), Pop ''a'']
 \<and> fst (pop (run (snd (pop \<lparr>max_length = Some 50, futures = [(''a'', 1::int), (''b'', 2)]\<rparr> ''b''))
       [Add ''c'' 3, Pop ''a'']) ''b'') = None
 \<and> future_attr finished_future
      (run (snd (pop \<lparr>max_length = Some 50, futures = [(''a'', 1::int), (''b'', 2)]\<rparr> ''b''))
       [Add ''c'' 3, Pop ''a'']) ''done'' ''b'' () = Inr None"
proof -
  have inv: "od_invariant (futures \<lparr>max_length = Some 50, futures = [(''a'', 1::int), (''b'', 2)]\<rparr>)"
    by (simp add: od_invariant_def)
  have present: "map_of (futures \<lparr>max_length = Some 50, futures = [(''a'', 1::int), (''b'', 2)]\<rparr>) ''b'' = Some 2"
    by simp
  have others: "\<not> adds_key ''b'' [Add ''c'' (3::int), Pop ''a'']"
    by simp
  have popped: "pop \<lparr>max_length = Some 50, futures = [(''a'', 1::int), (''b'', 2)]\<rparr> ''b''
      = (Some 2, \<lparr>max_length = Some 50, futures = [(''a'', 1)]\<rparr>)"
    by (simp add: pop_def od_pop_def)
  note inst = pop_removes_entry
    [OF inv present, where getattr = finished_future and attr = "''done''" and args = "()"
       and cs = "[Add ''c'' (3::int), Pop ''a'']"]
  from inst [THEN conjunct2, THEN conjunct1]
  have size: "len (snd (pop \<lparr>max_length = Some 50, futures = [(''a'', 1::int), (''b'', 2)]\<rparr> ''b'')) = 1"
    by (simp add: len_def)
  note later = inst [THEN conjunct2, THEN conjunct2, THEN conjunct2, THEN conjunct2, THEN mp, OF others]
  from inv present popped size others later [THEN conjunct1] later [THEN conjunct2]
  show ?thesis
    by (intro conjI)
qed

section \<open>Containment\<close>

text \<open>
  C9, as amended. \<open>contains\<close> searches the stored values, not the keys: it holds for
  \<open>h\<close> exactly if some key maps to \<open>h\<close>. It holds right after an \<open>add\<close> of \<open>h\<close>
  under an absent key whenever eviction does not remove the new entry, that is
  unless \<open>max_length\<close> is below one. Right after \<open>pop\<close> of \<open>k\<close> it holds for \<open>h\<close>
  exactly if a key other than \<open>k\<close> maps to \<open>h\<close>: it is false whenever \<open>h\<close> was
  stored under \<open>k\<close> alone.
\<close>

theorem contains_searches_values:
  "(k \<notin> set (od_keys (futures fc)) \<longrightarrow>
      (case max_length fc of None \<Rightarrow> True | Some N \<Rightarrow> 1 \<le> N) \<longrightarrow>
      contains (snd (add fc k h)) h)
 \<and> (contains (snd (pop fc k)) h \<longleftrightarrow> stored_under_other_key (futures fc) k h)
 \<and> (contains fc h \<longleftrightarrow> (\<exists>k'. (k', h) \<in> set (futures fc)))"
proof (intro conjI impI)
  assume absent: "k \<notin> set (od_keys (futures fc))"
    and bound: "case max_length fc of None \<Rightarrow> True | Some N \<Rightarrow> 1 \<le> N"
  show "contains (snd (add fc k h)) h"
  proof (cases "max_length fc")
    case None
    with absent show ?thesis
      by (simp add: add_absent_unbounded contains_def od_values_def)
  next
    case (Some N)
    with bound have "1 \<le> N" by simp
    then have "(k, h) \<in> set (most_recent (nat N) (futures fc @ [(k, h)]))"
      by (intro last_in_most_recent) simp
    then have "h \<in> snd ` set (most_recent (nat N) (futures fc @ [(k, h)]))"
      by force
    with Some absent \<open>1 \<le> N\<close> show ?thesis
      by (simp add: add_absent_bounded contains_def od_values_def)
  qed
next
  show "contains (snd (pop fc k)) h \<longleftrightarrow> stored_under_other_key (futures fc) k h"
    by (force simp: contains_def od_values_def futures_pop stored_under_other_key_iff)
next
  show "contains fc h \<longleftrightarrow> (\<exists>k'. (k', h) \<in> set (futures fc))"
    by (force simp: contains_def od_values_def)
qed

theorem contains_searches_values_witness:
  "''b'' \<notin> set (od_keys (futures \<lparr>max_length = Some 1, futures = [(''a'', 1::int)]\<rparr>))
 \<and> (case max_length \<lparr>max_length = Some 1, futures = [(''a'', 1::int)]\<rparr> of
       None \<Rightarrow> True | Some N \<Rightarrow> 1 \<le> N)
 \<and> contains (snd (add \<lparr>max_length = Some 1, futures = [(''a'', 1::int)]\<rparr> ''b'' 2)) 2
 \<and> \<not> stored_under_other_key (futures \<lparr>max_length = Some 1, futures = [(''a'', 1::int)]\<rparr>) ''a'' 1
 \<and> \<not> contains (snd (pop \<lparr>max_length = Some 1, futures = [(''a'', 1::int)]\<rparr> ''a'')) 1"
proof -
  have absent: "''b'' \<notin> set (od_keys (futures \<lparr>max_length = Some 1, futures = [(''a'', 1::int)]\<rparr>))"
    by (simp add: od_keys_def)
  have room: "case max_length \<lparr>max_length = Some 1, futures = [(''a'', 1::int)]\<rparr> of
       None \<Rightarrow> True | Some N \<Rightarrow> 1 \<le> N"
    by simp
  have only: "\<not> stored_under_other_key (futures \<lparr>max_length = Some 1, futures = [(''a'', 1::int)]\<rparr>) ''a'' 1"
    by simp
  have added: "contains (snd (add \<lparr>max_length = Some 1, futures = [(''a'', 1::int)]\<rparr> ''b'' 2)) 2"
    by (rule contains_searches_values [THEN conjunct1, THEN mp, THEN mp, OF absent room])
  from only
  have popped: "\<not> contains (snd (pop \<lparr>max_length = Some 1, futures = [(''a'', 1::int)]\<rparr> ''a'')) 1"
    by (simp only: contains_searches_values [THEN conjunct2, THEN conjunct1] not_False_eq_True)
  from absent room added only popped show ?thesis
    by (intro conjI)
qed

text \<open>
  C9 as stated fails for a future stored under two keys: after
  \<^verbatim>\<open>add("a", 1)\<close> and \<^verbatim>\<open>add("b", 1)\<close> on a default collection,
  \<^verbatim>\<open>pop("b")\<close> returns the future and \<open>contains\<close> still holds for it.
\<close>

theorem contains_after_pop_counterexample:
  "run init_default [Add ''a'' (1::int), Add ''b'' 1]
     = \<lparr>max_length = Some 50, futures = [(''a'', 1), (''b'', 1)]\<rparr>
 \<and> contains (run init_default [Add ''a'' (1::int), Add ''b'' 1]) 1
 \<and> fst (pop (run init_default [Add ''a'' (1::int), Add ''b'' 1]) ''b'') = Some 1
 \<and> contains (snd (pop (run init_default [Add ''a'' (1::int), Add ''b'' 1]) ''b'')) 1"
  by (simp add: collection_defs)

section \<open>Absent keys\<close>

text \<open>
  C3. For a key \<open>k\<close> that is not in the collection (never added, popped or evicted),
  \<open>pop\<close> and the proxy \<open>future_attr\<close> raise nothing: both return \<open>None\<close>, for every
  attribute name, every argument list and every way the futures resolve names;
  \<open>pop\<close> also leaves the collection as it was.
\<close>

theorem absent_key_returns_none:
  assumes "k \<notin> set (od_keys (futures fc))"
  shows "pop fc k = (None, fc) \<and> future_attr getattr fc attr k args = Inr None"
  using assms by (simp add: pop_absent future_attr_absent)

theorem absent_key_returns_none_witness:
  "''b'' \<notin> set (od_keys (futures \<lparr>max_length = Some 50, futures = [(''a'', 1::int)]\<rparr>))
 \<and> pop \<lparr>max_length = Some 50, futures = [(''a'', 1::int)]\<rparr> ''b''
     = (None, \<lparr>max_length = Some 50, futures = [(''a'', 1::int)]\<rparr>)
 \<and> future_attr finished_future \<lparr>max_length = Some 50, futures = [(''a'', 1::int)]\<rparr>
      ''done'' ''b'' () = Inr None"
proof -
  have absent: "''b'' \<notin> set (od_keys (futures \<lparr>max_length = Some 50, futures = [(''a'', 1::int)]\<rparr>))"
    by (simp add: od_keys_def)
  show ?thesis
    by (rule conjI [OF absent absent_key_returns_none
         [where getattr = finished_future and attr = "''done''" and args = "()", OF absent]])
qed

text \<open>
  C10. For an absent key the proxy returns \<open>None\<close> for every name, a name that no
  future has included (\<open>getattr\<close> is arbitrary): the key is looked up before the name
  is resolved. Hence whenever the proxy raises, \<open>AttributeError\<close> included, the key
  is present.
\<close>

theorem absent_key_checked_before_attribute:
  "(k \<notin> set (od_keys (futures fc)) \<longrightarrow> future_attr getattr fc attr k args = Inr None)
 \<and> (future_attr getattr fc attr k args = Inl e \<longrightarrow> k \<in> set (od_keys (futures fc)))"
proof (intro conjI impI)
  assume "k \<notin> set (od_keys (futures fc))"
  then show "future_attr getattr fc attr k args = Inr None"
    by (rule future_attr_absent)
next
  assume raised: "future_attr getattr fc attr k args = Inl e"
  show "k \<in> set (od_keys (futures fc))"
  proof (rule ccontr)
    assume "k \<notin> set (od_keys (futures fc))"
    then have "future_attr getattr fc attr k args = Inr None"
      by (rule future_attr_absent)
    with raised show False by simp
  qed
qed

theorem absent_key_checked_before_attribute_witness:
  "future_attr finished_future \<lparr>max_length = Some 50, futures = [(''a'', 1::int)]\<rparr>
     ''unknownOp'' ''b'' () = Inr None
 \<and> future_attr finished_future \<lparr>max_length = Some 50, futures = [(''a'', 1::int)]\<rparr>
     ''unknownOp'' ''a'' () = Inl AttributeError
 \<and> ''a'' \<in> set (od_keys (futures \<lparr>max_length = Some 50, futures = [(''a'', 1::int)]\<rparr>))"
proof -
  have absent: "''b'' \<notin> set (od_keys (futures \<lparr>max_length = Some 50, futures = [(''a'', 1::int)]\<rparr>))"
    by (simp add: od_keys_def)
  have raised: "future_attr finished_future \<lparr>max_length = Some 50, futures = [(''a'', 1::int)]\<rparr>
     ''unknownOp'' ''a'' () = Inl AttributeError"
    by (simp add: future_attr_def od_keys_def finished_future_def)
  have returned: "future_attr finished_future \<lparr>max_length = Some 50, futures = [(''a'', 1::int)]\<rparr>
     ''unknownOp'' ''b'' () = Inr None"
    by (rule absent_key_checked_before_attribute
         [where k = "''b''" and getattr = finished_future and attr = "''unknownOp''"
            and args = "()" and e = AttributeError,
          THEN conjunct1, THEN mp, OF absent])
  have present: "''a'' \<in> set (od_keys (futures \<lparr>max_length = Some 50, futures = [(''a'', 1::int)]\<rparr>))"
    by (rule absent_key_checked_before_attribute
         [where k = "''a''" and getattr = finished_future and attr = "''unknownOp''"
            and args = "()" and e = AttributeError,
          THEN conjunct2, THEN mp, OF raised])
  from returned raised present show ?thesis
    by (intro conjI)
qed

section \<open>Delegation to a stored future\<close>

text \<open>
  C4. For a key \<open>k\<close> present with the future \<open>h\<close>, if the name \<open>attr\<close> is nothing
  that \<open>h\<close> has (\<open>getattr\<close> finds no attribute), the proxy raises
  \<open>AttributeError\<close>, the specification's unsupported-operation error.
\<close>

theorem unknown_attribute_raises:
  assumes "map_of (futures fc) k = Some h"
    and "getattr h attr = None"
  shows "future_attr getattr fc attr k args = Inl AttributeError"
  using assms by (simp add: future_attr_present)

theorem unknown_attribute_raises_witness:
  "map_of (futures \<lparr>max_length = Some 50, futures = [(''a'', 1::int)]\<rparr>) ''a'' = Some (1::int)
 \<and> finished_future 1 ''unknownOp'' = None
 \<and> future_attr finished_future \<lparr>max_length = Some 50, futures = [(''a'', 1::int)]\<rparr>
      ''unknownOp'' ''a'' () = Inl AttributeError"
proof -
  have present: "map_of (futures \<lparr>max_length = Some 50, futures = [(''a'', 1::int)]\<rparr>) ''a'' = Some 1"
    by simp
  have unknown: "finished_future 1 ''unknownOp'' = None"
    by (simp add: finished_future_def)
  from present unknown unknown_attribute_raises
    [where getattr = finished_future and h = 1 and attr = "''unknownOp''" and args = "()",
     OF present unknown]
  show ?thesis
    by (intro conjI)
qed

text \<open>
  C7. For a key \<open>k\<close> present with the future \<open>h\<close>, the proxy resolves the name on
  \<open>h\<close>. A callable is called with the arguments given, and what the call returns
  or raises is what the proxy returns or raises, unchanged; a plain attribute's value
  is returned as it is.
\<close>

theorem present_key_delegates:
  assumes "map_of (futures fc) k = Some h"
  shows "(getattr h attr = Some (Callable f) \<longrightarrow> future_attr getattr fc attr k args = f args)
       \<and> (getattr h attr = Some (Plain v) \<longrightarrow> future_attr getattr fc attr k args = Inr v)"
  using assms by (simp add: future_attr_present)

theorem present_key_delegates_witness:
  "map_of (futures \<lparr>max_length = Some 50, futures = [(''a'', 7::int)]\<rparr>) ''a'' = Some (7::int)
 \<and> future_attr finished_future \<lparr>max_length = Some 50, futures = [(''a'', 7::int)]\<rparr>
      ''result'' ''a'' () = Inr (Some (PyInt 7))
 \<and> future_attr finished_future \<lparr>max_length = Some 50, futures = [(''a'', 7::int)]\<rparr>
      ''fail'' ''a'' () = Inl (HandleError ''TimeoutError'')
 \<and> future_attr finished_future \<lparr>max_length = Some 50, futures = [(''a'', 7::int)]\<rparr>
      ''_state'' ''a'' () = Inr (Some (PyStr ''FINISHED''))"
proof -
  have present: "map_of (futures \<lparr>max_length = Some 50, futures = [(''a'', 7::int)]\<rparr>) ''a'' = Some 7"
    by simp
  have result: "finished_future 7 ''result'' = Some (Callable (\<lambda>args. Inr (Some (PyInt 7))))"
    by (simp add: finished_future_def)
  have fail: "finished_future 7 ''fail'' = Some (Callable (\<lambda>args. Inl (HandleError ''TimeoutError'')))"
    by (simp add: finished_future_def)
  have state: "finished_future 7 ''_state'' = Some (Plain (Some (PyStr ''FINISHED'')))"
    by (simp add: finished_future_def)
  have "future_attr finished_future \<lparr>max_length = Some 50, futures = [(''a'', 7::int)]\<rparr>
      ''result'' ''a'' () = Inr (Some (PyInt 7))"
    by (rule present_key_delegates
         [where getattr = finished_future and attr = "''result''" and args = "()",
          OF present, THEN conjunct1, THEN mp, OF result])
  moreover have "future_attr finished_future \<lparr>max_length = Some 50, futures = [(''a'', 7::int)]\<rparr>
      ''fail'' ''a'' () = Inl (HandleError ''TimeoutError'')"
    by (rule present_key_delegates
         [where getattr = finished_future and attr = "''fail''" and args = "()",
          OF present, THEN conjunct1, THEN mp, OF fail])
  moreover have "future_attr finished_future \<lparr>max_length = Some 50, futures = [(''a'', 7::int)]\<rparr>
      ''_state'' ''a'' () = Inr (Some (PyStr ''FINISHED''))"
    by (rule present_key_delegates
         [where getattr = finished_future and attr = "''_state''" and args = "()",
          OF present, THEN conjunct2, THEN mp, OF state])
  ultimately show ?thesis using present
    by (intro conjI)
qed

end
